theory Spec2Isabelle
  imports Main "HOL-Library.Word"
begin

unbundle bit_operations_syntax

section \<open>components/sceneutil/lightmanager.cpp\<close>

text \<open>
  A shallow embedding of the light manager of the scene utilities: the
  \<open>LightManager\<close> group node with its per-frame list of lights and its cache of
  state sets, the cull callback that selects the lights of a node, the visitor that
  attaches the cull callbacks, and the update callback of a light source that
  registers it with its manager.

  Conventions of the embedding.
  \<^item> Pointers to scene graph nodes (\<open>osg::Node*\<close>, \<open>LightManager*\<close>,
    \<open>LightSource*\<close>) and to state sets (\<open>osg::ref_ptr<osg::StateSet>\<close>) are
    addresses; two pointers are the same object exactly when the addresses are equal.
  \<^item> \<open>size_t\<close> is a 64 bit word. The \<open>unsigned int\<close> loop counters and the
    \<open>int\<close> elements of a light list are \<open>nat\<close> and \<open>int\<close>: they agree with
    the program for vectors of fewer than \<open>2 ^ 31\<close> elements.
  \<^item> Matrices, vectors, bounding spheres and radii are floating point data of the
    scene graph library. Their types are type variables, and the operations on them
    that the file calls, with the other functions that it calls and does not
    define, are the fields of the record \<open>env\<close>.
  \<^item> An out of range \<open>operator[]\<close> and a call through a pointer to no live
    object have no behaviour in C++: the model returns \<open>Inl undefined_behaviour\<close>.
  \<^item> Every callback ends with the traversal of the children of its node. The
    traversal is the scene graph library's and is not part of the model.
\<close>

type_synonym addr = nat
type_synonym size_t = "64 word"

datatype error = runtime_error string | undefined_behaviour

subsection \<open>Data of the scene graph library\<close>

text \<open>\<open>osg::Light\<close>, and \<open>LightStateAttribute\<close> which adds no field to it.\<close>

record ('v, 'p) Light =
  lightnum :: nat
  position :: 'v
  lightParams :: 'p

text \<open>
  \<open>osg::StateSet\<close>. Its attributes are keyed by type and member; the member of a
  light is its light number, so the lights of a state set are a map from light
  numbers. \<open>modeList\<close> holds the light numbers \<open>n\<close> whose mode
  \<open>GL_LIGHT0 + n\<close> is on.
\<close>

record ('v, 'p) StateSet =
  attributeList :: "nat \<rightharpoonup> ('v, 'p) Light"
  modeList :: "nat set"

definition new_StateSet :: "('v, 'p) StateSet" where
  "new_StateSet = \<lparr>attributeList = Map.empty, modeList = {}\<rparr>"

definition setAttribute :: "('v, 'p) Light \<Rightarrow> ('v, 'p) StateSet \<Rightarrow> ('v, 'p) StateSet" where
  "setAttribute attribute stateset =
     stateset\<lparr>attributeList := (attributeList stateset)(lightnum attribute \<mapsto> attribute)\<rparr>"

definition setAssociatedModes :: "('v, 'p) Light \<Rightarrow> ('v, 'p) StateSet \<Rightarrow> ('v, 'p) StateSet" where
  "setAssociatedModes attribute stateset =
     stateset\<lparr>modeList := insert (lightnum attribute) (modeList stateset)\<rparr>"

text \<open>
  A node as a traversal sees it: its address, its class, its list of parents and,
  for a group, its children. \<open>Group\<close> stands for \<open>osg::Group\<close> and its subclasses
  (a \<open>LightManager\<close> is one), \<open>Geode\<close> for \<open>osg::Geode\<close>, whose drawables are
  not children, and \<open>Leaf\<close> for any other node (a \<open>LightSource\<close> is one).
\<close>

datatype nodeClass = Geode | Group | Leaf

datatype node = Node (nodeAddr: addr) (nodeClass: nodeClass) (parents: "addr list") (children: "node list")

text \<open>The cull callback of the file; its only member is the pointer to its manager.\<close>

datatype CullCallback = CullCallback addr

text \<open>The cull callbacks of every node, in the order in which they are called.\<close>

type_synonym cullCallbacks = "addr \<Rightarrow> CullCallback list"

definition addCullCallback :: "addr \<Rightarrow> CullCallback \<Rightarrow> cullCallbacks \<Rightarrow> cullCallbacks" where
  "addCullCallback n nc cbs = cbs(n := cbs n @ [nc])"

text \<open>
  What the file takes from the scene graph library, from Boost, from \<open>util.hpp\<close>
  and from \<open>lightmanager.hpp\<close>, none of which it defines.
\<close>

record ('m, 'b, 'r, 'v, 'p) env =
  matMult :: "'m \<Rightarrow> 'm \<Rightarrow> 'm"                    \<comment> \<open>\<open>operator*\<close> of \<open>osg::Matrix\<close>\<close>
  preMult :: "'m \<Rightarrow> 'v \<Rightarrow> 'v"                    \<comment> \<open>\<open>Matrix::preMult\<close> of a \<open>Vec4\<close>\<close>
  BoundingSphere :: "'r \<Rightarrow> 'b"                   \<comment> \<open>the sphere around the origin\<close>
  BoundingSphere0 :: "'b"                         \<comment> \<open>the default constructor\<close>
  transformBoundingSphere :: "'m \<Rightarrow> 'b \<Rightarrow> 'b"
  intersects :: "'b \<Rightarrow> 'b \<Rightarrow> bool"
  getBound :: "addr \<Rightarrow> 'b"                       \<comment> \<open>\<open>Node::getBound\<close>\<close>
  computeLocalToWorld :: "addr list \<Rightarrow> 'm"
  getRadius :: "addr \<Rightarrow> 'r"                      \<comment> \<open>\<open>LightSource::getRadius\<close>\<close>
  getLight :: "addr \<Rightarrow> ('v, 'p) Light"            \<comment> \<open>\<open>LightSource::getLight\<close>\<close>
  hash_combine :: "size_t \<Rightarrow> int \<Rightarrow> size_t"       \<comment> \<open>\<open>boost::hash_combine\<close> with an \<open>int\<close>\<close>

subsection \<open>The light manager\<close>

record ('m, 'b) LightSourceTransform =
  mLightSource :: addr
  mWorldMatrix :: 'm
  mViewBound :: 'b

text \<open>
  The members of \<open>LightManager\<close>, after the children of its base class
  \<open>osg::Group\<close>. The cache is a \<open>std::map\<close> from \<open>size_t\<close> to state set
  pointers.
\<close>

record ('m, 'b) LightManager =
  groupChildren :: "node list"
  mLights :: "('m, 'b) LightSourceTransform list"
  mLightsInViewSpace :: bool
  mStateSetCache :: "size_t \<rightharpoonup> addr"
  mDecorated :: bool

definition LightManager_ctor :: "('m, 'b) LightManager" where
  "LightManager_ctor =
     \<lparr>groupChildren = [], mLights = [], mLightsInViewSpace = False,
      mStateSetCache = Map.empty, mDecorated = False\<rparr>"

text \<open>
  The copy constructor, for the copy at address \<open>this\<close>, with the shallow copy
  that is its default: the copy constructor of the group adds the children of the
  original to the copy, and a child that is added gets the group as one more
  parent.
\<close>

fun addParent :: "addr \<Rightarrow> node \<Rightarrow> node" where
  "addParent parent (Node a c ps cs) = Node a c (ps @ [parent]) cs"

definition LightManager_copy ::
  "addr \<Rightarrow> ('m, 'b) LightManager \<Rightarrow> ('m, 'b) LightManager" where
  "LightManager_copy this copy =
     \<lparr>groupChildren = map (addParent this) (groupChildren copy), mLights = [],
      mLightsInViewSpace = False, mStateSetCache = Map.empty, mDecorated = mDecorated copy\<rparr>"

subsubsection \<open>AttachCullCallbackVisitor\<close>

definition apply_Geode :: "addr \<Rightarrow> node \<Rightarrow> cullCallbacks \<Rightarrow> cullCallbacks" where
  "apply_Geode mLightManager geode cbs =
     (if length (parents geode) = 0 then cbs
      else let parent = parents geode ! 0
           in addCullCallback parent (CullCallback mLightManager) cbs)"

text \<open>
  \<open>Node::accept\<close> for this visitor, which traverses all children: a geode goes to
  \<open>apply_Geode\<close>, which does not traverse further; for every other node the default
  \<open>apply\<close> traverses the node, and only a group has children to traverse.
\<close>

fun accept :: "addr \<Rightarrow> node \<Rightarrow> cullCallbacks \<Rightarrow> cullCallbacks" where
  "accept mLightManager (Node a c ps cs) cbs =
     (if c = Geode then apply_Geode mLightManager (Node a c ps cs) cbs
      else if c = Group then fold (accept mLightManager) cs cbs
      else cbs)"

text \<open>The manager is a group, so the visitor it accepts goes to its children.\<close>

definition decorateGeodes ::
  "addr \<Rightarrow> ('m, 'b) LightManager \<Rightarrow> cullCallbacks \<Rightarrow> cullCallbacks" where
  "decorateGeodes this lm cbs = fold (accept this) (groupChildren lm) cbs"

subsubsection \<open>update, addLight, prepareForCamera, getLights\<close>

definition update ::
  "addr \<Rightarrow> cullCallbacks \<times> ('m, 'b) LightManager \<Rightarrow> cullCallbacks \<times> ('m, 'b) LightManager" where
  "update this = (\<lambda>(cbs, lm).
     let lm1 = lm\<lparr>mLightsInViewSpace := False, mLights := [], mStateSetCache := Map.empty\<rparr>
     in if \<not> mDecorated lm1
        then (decorateGeodes this lm1 cbs, lm1\<lparr>mDecorated := True\<rparr>)
        else (cbs, lm1))"

definition addLight ::
  "('m, 'b, 'r, 'v, 'p) env \<Rightarrow> addr \<Rightarrow> 'm \<Rightarrow> ('m, 'b) LightManager \<Rightarrow> ('m, 'b) LightManager" where
  "addLight env lightSource worldMat lm =
     (let l = \<lparr>mLightSource = lightSource, mWorldMatrix = worldMat,
               mViewBound = BoundingSphere0 env\<rparr>
      in lm\<lparr>mLights := mLights lm @ [l]\<rparr>)"

text \<open>The body of the loop of \<open>prepareForCamera\<close>, for one light and the view matrix.\<close>

definition toViewSpace ::
  "('m, 'b, 'r, 'v, 'p) env \<Rightarrow> 'm \<Rightarrow> ('m, 'b) LightSourceTransform \<Rightarrow> ('m, 'b) LightSourceTransform" where
  "toViewSpace env viewMatrix l =
     (let worldViewMat = matMult env (mWorldMatrix l) viewMatrix
      in l\<lparr>mViewBound :=
             transformBoundingSphere env worldViewMat
               (BoundingSphere env (getRadius env (mLightSource l)))\<rparr>)"

text \<open>A camera is used for its view matrix only.\<close>

definition prepareForCamera ::
  "('m, 'b, 'r, 'v, 'p) env \<Rightarrow> 'm \<Rightarrow> ('m, 'b) LightManager \<Rightarrow> ('m, 'b) LightManager" where
  "prepareForCamera env camViewMatrix lm =
     (if \<not> mLightsInViewSpace lm
      then lm\<lparr>mLights := map (toViewSpace env camViewMatrix) (mLights lm),
               mLightsInViewSpace := True\<rparr>
      else lm)"

definition getLights :: "('m, 'b) LightManager \<Rightarrow> ('m, 'b) LightSourceTransform list" where
  "getLights lm = mLights lm"

subsubsection \<open>getLightListStateSet\<close>

text \<open>The loop that combines the indices of the list into the key of the cache.\<close>

function hashLoop ::
  "('m, 'b, 'r, 'v, 'p) env \<Rightarrow> int list \<Rightarrow> nat \<Rightarrow> size_t \<Rightarrow> size_t" where
  "hashLoop env lightList i hash =
     (if i < length lightList
      then hashLoop env lightList (i + 1) (hash_combine env hash (lightList ! i))
      else hash)"
  by pat_completeness auto
termination
  by (relation "measure (\<lambda>(env, lightList, i, hash). length lightList - i)") auto

declare hashLoop.simps [simp del]

text \<open>
  The loop that fills the new state set. The light at position \<open>i\<close> of the list is
  cloned, placed with its world matrix and given the light number \<open>i\<close>.
\<close>

function buildLoop ::
  "('m, 'b, 'r, 'v, 'p) env \<Rightarrow> ('m, 'b) LightSourceTransform list \<Rightarrow> int list \<Rightarrow> nat \<Rightarrow>
   ('v, 'p) StateSet \<Rightarrow> error + ('v, 'p) StateSet" where
  "buildLoop env lights lightList i stateset =
     (if i < length lightList
      then (let lightIndex = lightList ! i
            in if 0 \<le> lightIndex \<and> lightIndex < int (length lights)
               then (let light = getLight env (mLightSource (lights ! nat lightIndex));
                         clonedLight = light;
                         clonedLight = clonedLight\<lparr>position :=
                           preMult env (mWorldMatrix (lights ! nat lightIndex)) (position light)\<rparr>;
                         clonedLight = clonedLight\<lparr>lightnum := i\<rparr>;
                         stateset = setAttribute clonedLight stateset;
                         stateset = setAssociatedModes clonedLight stateset
                     in buildLoop env lights lightList (i + 1) stateset)
               else Inl undefined_behaviour)
      else Inr stateset)"
  by pat_completeness auto
termination
  by (relation "measure (\<lambda>(env, lights, lightList, i, stateset). length lightList - i)") auto

declare buildLoop.simps [simp del]

text \<open>
  The state sets live in a heap, a list indexed by address; \<open>new\<close> takes the next
  address. The function returns the pointer with the new heap and manager.
\<close>

definition getLightListStateSet ::
  "('m, 'b, 'r, 'v, 'p) env \<Rightarrow> int list \<Rightarrow> ('v, 'p) StateSet list \<times> ('m, 'b) LightManager \<Rightarrow>
   error + (addr \<times> ('v, 'p) StateSet list \<times> ('m, 'b) LightManager)" where
  "getLightListStateSet env lightList = (\<lambda>(heap, lm).
     let hash = hashLoop env lightList 0 0
     in case mStateSetCache lm hash of
          Some found \<Rightarrow> Inr (found, heap, lm)
        | None \<Rightarrow>
            (case buildLoop env (mLights lm) lightList 0 new_StateSet of
               Inl e \<Rightarrow> Inl e
             | Inr stateset \<Rightarrow>
                 (let ref = length heap
                  in Inr (ref, heap @ [stateset],
                          lm\<lparr>mStateSetCache := (mStateSetCache lm)(hash \<mapsto> ref)\<rparr>))))"

subsection \<open>CullCallback\<close>

text \<open>The loop over the lights: the indices of the lights that meet the node bound.\<close>

function collectLoop ::
  "('m, 'b, 'r, 'v, 'p) env \<Rightarrow> ('m, 'b) LightSourceTransform list \<Rightarrow> 'b \<Rightarrow> nat \<Rightarrow>
   int list \<Rightarrow> int list" where
  "collectLoop env lights nodeBound i lightList =
     (if i < length lights
      then (let l = lights ! i
            in collectLoop env lights nodeBound (i + 1)
                 (if intersects env (mViewBound l) nodeBound then lightList @ [int i]
                  else lightList))
      else lightList)"
  by pat_completeness auto
termination
  by (relation "measure (\<lambda>(env, lights, nodeBound, i, lightList). length lights - i)") auto

declare collectLoop.simps [simp del]

function popLoop :: "int list \<Rightarrow> int list" where
  "popLoop lightList =
     (if length lightList > 8 then popLoop (butlast lightList) else lightList)"
  by pat_completeness auto
termination
  by (relation "measure length") auto

declare popLoop.simps [simp del]

text \<open>
  Of the cull visitor the callback reads the view matrix of the current camera and
  the model view matrix. What it does with the visitor is one of two things: it
  traverses the node, or it pushes a state set, traverses and pops.
\<close>

record 'm CullVisitor =
  currentCameraViewMatrix :: 'm
  modelViewMatrix :: 'm

datatype cullAction = Traverse | PushTraversePop addr

text \<open>
  The call operator of the callback, on the manager that \<open>mLightManager\<close> points
  to and the heap of state sets.
\<close>

definition CullCallback_call ::
  "('m, 'b, 'r, 'v, 'p) env \<Rightarrow> addr \<Rightarrow> 'm CullVisitor \<Rightarrow>
   ('v, 'p) StateSet list \<times> ('m, 'b) LightManager \<Rightarrow>
   error + (cullAction \<times> ('v, 'p) StateSet list \<times> ('m, 'b) LightManager)" where
  "CullCallback_call env node cv = (\<lambda>(heap, lm).
     let lm = prepareForCamera env (currentCameraViewMatrix cv) lm;
         lights = getLights lm
     in if length lights \<noteq> 0
        then (let nodeBound = getBound env node;
                  mat = modelViewMatrix cv;
                  nodeBound = transformBoundingSphere env mat nodeBound;
                  lightList = collectLoop env lights nodeBound 0 []
              in if lightList = [] then Inr (Traverse, heap, lm)
                 else (let lightList = (if length lightList > 8 then popLoop lightList
                                        else lightList)
                       in case getLightListStateSet env lightList (heap, lm) of
                            Inl e \<Rightarrow> Inl e
                          | Inr (stateset, heap, lm) \<Rightarrow>
                              Inr (PushTraversePop stateset, heap, lm)))
        else Inr (Traverse, heap, lm))"

subsection \<open>CollectLightCallback\<close>

text \<open>
  The callback holds the pointer to its manager, null at first. The managers are
  the objects of a store: a node of the path is a \<open>LightManager\<close>, and the dynamic
  cast succeeds, exactly when the store has a manager at its address.
\<close>

record CollectLightCallback =
  mLightManager :: "addr option"

definition CollectLightCallback_ctor :: CollectLightCallback where
  "CollectLightCallback_ctor = \<lparr>mLightManager = None\<rparr>"

function findLightManager ::
  "(addr \<rightharpoonup> ('m, 'b) LightManager) \<Rightarrow> addr list \<Rightarrow> nat \<Rightarrow> addr option" where
  "findLightManager managers nodePath i =
     (if i < length nodePath
      then (if managers (nodePath ! i) \<noteq> None then Some (nodePath ! i)
            else findLightManager managers nodePath (i + 1))
      else None)"
  by pat_completeness auto
termination
  by (relation "measure (\<lambda>(managers, nodePath, i). length nodePath - i)") auto

declare findLightManager.simps [simp del]

text \<open>
  The call operator, for the light source \<open>node\<close> and the node path of the
  visitor. It returns what the call did, an exception or a return, with the
  callback and the managers as the call leaves them.
\<close>

definition CollectLightCallback_call ::
  "('m, 'b, 'r, 'v, 'p) env \<Rightarrow> addr \<Rightarrow> addr list \<Rightarrow>
   CollectLightCallback \<times> (addr \<rightharpoonup> ('m, 'b) LightManager) \<Rightarrow>
   (error + unit) \<times> CollectLightCallback \<times> (addr \<rightharpoonup> ('m, 'b) LightManager)" where
  "CollectLightCallback_call env node nodePath = (\<lambda>(cb, managers).
     let cb = (if mLightManager cb = None
               then cb\<lparr>mLightManager := findLightManager managers nodePath 0\<rparr>
               else cb)
     in case mLightManager cb of
          None \<Rightarrow> (Inl (runtime_error ''can't find parent LightManager''), cb, managers)
        | Some lightManager \<Rightarrow>
            (case managers lightManager of
               None \<Rightarrow> (Inl undefined_behaviour, cb, managers)
             | Some lm \<Rightarrow>
                 (Inr (), cb,
                  managers(lightManager \<mapsto>
                    addLight env node (computeLocalToWorld env nodePath) lm))))"

text \<open>
  The light sources that a manager of the store holds after a call of the callback,
  in the order of registration.
\<close>

definition registered ::
  "(error + unit) \<times> CollectLightCallback \<times> (addr \<rightharpoonup> ('m, 'b) LightManager) \<Rightarrow> addr \<Rightarrow>
   addr list option" where
  "registered r lightManager =
     map_option (\<lambda>lm. map mLightSource (getLights lm)) (snd (snd r) lightManager)"

subsection \<open>Sequences of calls\<close>

text \<open>
  The four operations of a manager that change it, called one after the other on
  the manager at address \<open>this\<close>, with the cull callbacks of the scene and the heap
  of state sets. A call with no behaviour ends the sequence.
\<close>

datatype 'm operation = Update | AddLight addr 'm | PrepareForCamera 'm | GetLightListStateSet "int list"

fun call ::
  "('m, 'b, 'r, 'v, 'p) env \<Rightarrow> addr \<Rightarrow> 'm operation \<Rightarrow>
   cullCallbacks \<times> ('v, 'p) StateSet list \<times> ('m, 'b) LightManager \<Rightarrow>
   error + (cullCallbacks \<times> ('v, 'p) StateSet list \<times> ('m, 'b) LightManager)" where
  "call env this Update (cbs, heap, lm) =
     (case update this (cbs, lm) of (cbs', lm') \<Rightarrow> Inr (cbs', heap, lm'))"
| "call env this (AddLight lightSource worldMat) (cbs, heap, lm) =
     Inr (cbs, heap, addLight env lightSource worldMat lm)"
| "call env this (PrepareForCamera cam) (cbs, heap, lm) =
     Inr (cbs, heap, prepareForCamera env cam lm)"
| "call env this (GetLightListStateSet lightList) (cbs, heap, lm) =
     (case getLightListStateSet env lightList (heap, lm) of
        Inl e \<Rightarrow> Inl e
      | Inr (stateset, heap', lm') \<Rightarrow> Inr (cbs, heap', lm'))"

fun calls ::
  "('m, 'b, 'r, 'v, 'p) env \<Rightarrow> addr \<Rightarrow> 'm operation list \<Rightarrow>
   cullCallbacks \<times> ('v, 'p) StateSet list \<times> ('m, 'b) LightManager \<Rightarrow>
   error + (cullCallbacks \<times> ('v, 'p) StateSet list \<times> ('m, 'b) LightManager)" where
  "calls env this [] s = Inr s"
| "calls env this (c # cs) s =
     (case call env this c s of Inl e \<Rightarrow> Inl e | Inr s' \<Rightarrow> calls env this cs s')"

text \<open>
  Calls of \<open>getLightListStateSet\<close> one after the other, and the pointers they
  return.
\<close>

fun getLightListStateSets ::
  "('m, 'b, 'r, 'v, 'p) env \<Rightarrow> int list list \<Rightarrow> ('v, 'p) StateSet list \<times> ('m, 'b) LightManager \<Rightarrow>
   error + addr list" where
  "getLightListStateSets env [] s = Inr []"
| "getLightListStateSets env (lightList # rest) s =
     (case getLightListStateSet env lightList s of
        Inl e \<Rightarrow> Inl e
      | Inr (stateset, s') \<Rightarrow>
          (case getLightListStateSets env rest s' of
             Inl e \<Rightarrow> Inl e
           | Inr statesets \<Rightarrow> Inr (stateset # statesets)))"

subsection \<open>An instance of the interface\<close>

text \<open>
  \<open>hash_combine\<close> as the Boost library documents it,
  \<open>seed ^= hash_value(v) + 0x9e3779b9 + (seed << 6) + (seed >> 2)\<close>, where the
  hash value of an \<open>int\<close> is the integer converted to \<open>size_t\<close>.
\<close>

definition boost_hash_combine :: "size_t \<Rightarrow> int \<Rightarrow> size_t" where
  "boost_hash_combine seed v =
     seed XOR (word_of_int v + 0x9e3779b9 + push_bit 6 seed + drop_bit 2 seed)"

text \<open>
  The examples run the model on a scene on a line: a matrix is a translation, a
  bounding sphere is a centre and a radius, and a sphere of negative radius is
  not valid and meets nothing.
\<close>

definition line_env :: "(int, int \<times> int, int, int, unit) env" where
  "line_env =
     \<lparr>matMult = (\<lambda>a b. a + b),
      preMult = (\<lambda>m v. v + m),
      BoundingSphere = (\<lambda>r. (0, r)),
      BoundingSphere0 = (0, - 1),
      transformBoundingSphere = (\<lambda>m (c, r). (c + m, r)),
      intersects = (\<lambda>(c1, r1) (c2, r2). 0 \<le> r1 \<and> 0 \<le> r2 \<and> \<bar>c1 - c2\<bar> \<le> r1 + r2),
      getBound = (\<lambda>n. (0, 1)),
      computeLocalToWorld = (\<lambda>nodePath. int (length nodePath)),
      getRadius = (\<lambda>lightSource. int lightSource),
      getLight = (\<lambda>lightSource. \<lparr>lightnum = 0, position = int lightSource, lightParams = ()\<rparr>),
      hash_combine = boost_hash_combine\<rparr>"

definition lightsAt :: "int list \<Rightarrow> (int, int \<times> int) LightManager" where
  "lightsAt centres =
     foldl (\<lambda>lm c. addLight line_env 2 c lm) LightManager_ctor centres"

text \<open>Twenty-five lights, at 0 to 24.\<close>

definition twentyFiveLights :: "(int, int \<times> int) LightManager" where
  "twentyFiveLights =
     lightsAt [0, 1, 2, 3, 4, 5, 6, 7, 8, 9, 10, 11, 12, 13, 14, 15, 16, 17, 18, 19, 20, 21, 22, 23, 24]"



section \<open>Specification\<close>

text \<open>
  The selection of the cull callback as the specification words it: the indices of
  the lights whose view bound meets the node bound, in the order of registration,
  cut to the first eight.
\<close>

definition selectedLights ::
  "('m, 'b, 'r, 'v, 'p) env \<Rightarrow> ('m, 'b) LightSourceTransform list \<Rightarrow> 'b \<Rightarrow> nat list" where
  "selectedLights env lights nodeBound =
     take 8 (filter (\<lambda>i. intersects env (mViewBound (lights ! i)) nodeBound)
               [0..<length lights])"

text \<open>
  The light that the specification puts in a slot: the light of the light source at
  the index, moved by the world matrix of its registration, with the slot as its
  light number.
\<close>

definition clonedLight ::
  "('m, 'b, 'r, 'v, 'p) env \<Rightarrow> ('m, 'b) LightSourceTransform list \<Rightarrow> int \<Rightarrow> nat \<Rightarrow> ('v, 'p) Light" where
  "clonedLight env lights lightIndex slot =
     (let l = lights ! nat lightIndex; light = getLight env (mLightSource l)
      in light\<lparr>position := preMult env (mWorldMatrix l) (position light), lightnum := slot\<rparr>)"

text \<open>
  The invariant of the cache: different keys hold different state sets, and every
  state set of the cache is allocated.
\<close>

definition cache_ok :: "('v, 'p) StateSet list \<Rightarrow> ('m, 'b) LightManager \<Rightarrow> bool" where
  "cache_ok heap lm \<longleftrightarrow>
     inj_on (mStateSetCache lm) (dom (mStateSetCache lm)) \<and>
     ran (mStateSetCache lm) \<subseteq> {..<length heap}"

text \<open>
  The nodes of a subtree, and the scenes in which only a group has children.
\<close>

fun subtree :: "node \<Rightarrow> node list" where
  "subtree (Node a c ps cs) = Node a c ps cs # concat (map subtree cs)"

definition wellFormed :: "node \<Rightarrow> bool" where
  "wellFormed n \<longleftrightarrow> (\<forall>m\<in>set (subtree n). nodeClass m \<noteq> Group \<longrightarrow> children m = [])"





text \<open>
  What the visitor of the file reaches instead is \<open>getParent(0)\<close>:
  \<open>firstParents\<close> lists, for every geode that the traversal meets and that has a
  parent, the first entry of its list of parents. \<open>attach\<close> gives every node one
  cull callback of the manager for each time a list names it.
\<close>

definition firstParents :: "node list \<Rightarrow> addr list" where
  "firstParents nodes =
     map (\<lambda>g. parents g ! 0)
       (filter (\<lambda>g. nodeClass g = Geode \<and> parents g \<noteq> []) (concat (map subtree nodes)))"

definition attach :: "addr \<Rightarrow> addr list \<Rightarrow> cullCallbacks \<Rightarrow> cullCallbacks" where
  "attach this ps cbs = (\<lambda>p. cbs p @ replicate (count_list ps p) (CullCallback this))"

section \<open>Properties\<close>

subsection \<open>update\<close>

text \<open>
  C3. For every state of a manager and of the scene, right after \<open>update\<close> the list
  of lights is empty, the cache of state sets is empty and the flag
  \<open>mLightsInViewSpace\<close> is cleared, whatever the state was before.
\<close>

theorem update_clears:
  "getLights (snd (update this (cbs, lm))) = [] \<and>
   mStateSetCache (snd (update this (cbs, lm))) = Map.empty \<and>
   mLightsInViewSpace (snd (update this (cbs, lm))) = False"
  by (simp add: update_def getLights_def Let_def)

subsection \<open>prepareForCamera\<close>

text \<open>
  C5. When the flag \<open>mLightsInViewSpace\<close> is set, \<open>prepareForCamera\<close> changes
  nothing, whatever the camera: the manager, and so every view bound computed
  before, is as it was. In particular a second call with another camera, after a
  first call and before the next \<open>update\<close>, leaves the result of the first call.
\<close>

theorem prepareForCamera_idempotent:
  "(mLightsInViewSpace lm \<longrightarrow>
      prepareForCamera env cam lm = lm \<and>
      map mViewBound (getLights (prepareForCamera env cam lm)) = map mViewBound (getLights lm)) \<and>
   prepareForCamera env cam2 (prepareForCamera env cam1 lm) = prepareForCamera env cam1 lm"
  by (simp add: prepareForCamera_def)

theorem prepareForCamera_idempotent_witness:
  "mLightsInViewSpace (prepareForCamera line_env 5 (addLight line_env 1 3 LightManager_ctor)) \<and>
   prepareForCamera line_env 7 (prepareForCamera line_env 5 (addLight line_env 1 3 LightManager_ctor))
     = prepareForCamera line_env 5 (addLight line_env 1 3 LightManager_ctor) \<and>
   map mViewBound (getLights
     (prepareForCamera line_env 7 (prepareForCamera line_env 5 (addLight line_env 1 3 LightManager_ctor))))
     = [(8, 1)] \<and>
   map mViewBound (getLights
     (prepareForCamera line_env 7 (addLight line_env 1 3 LightManager_ctor)))
     = [(10, 1)]"
  using prepareForCamera_idempotent
    [of "prepareForCamera line_env 5 (addLight line_env 1 3 LightManager_ctor)" line_env 7]
  by (simp add: prepareForCamera_def addLight_def LightManager_ctor_def line_env_def
      toViewSpace_def getLights_def)

subsection \<open>addLight\<close>

text \<open>
  C7. \<open>addLight\<close> appends one record for each call, with no check for a light
  source that is already there and no bound on the number: after \<open>update\<close> and
  \<open>N\<close> calls of \<open>addLight\<close>, \<open>getLights\<close> returns \<open>N\<close> records, the light
  sources and world matrices of the calls in the order of the calls.
\<close>

theorem addLight_appends:
  "getLights (foldl (\<lambda>lm (lightSource, worldMat). addLight env lightSource worldMat lm)
               (snd (update this (cbs, lm0))) registrations)
     = map (\<lambda>(lightSource, worldMat).
              \<lparr>mLightSource = lightSource, mWorldMatrix = worldMat,
               mViewBound = BoundingSphere0 env\<rparr>) registrations \<and>
   length (getLights (foldl (\<lambda>lm (lightSource, worldMat). addLight env lightSource worldMat lm)
               (snd (update this (cbs, lm0))) registrations))
     = length registrations"
proof -
  have step: "mLights (foldl (\<lambda>lm (lightSource, worldMat). addLight env lightSource worldMat lm) lm rs)
      = mLights lm @ map (\<lambda>(lightSource, worldMat).
              \<lparr>mLightSource = lightSource, mWorldMatrix = worldMat,
               mViewBound = BoundingSphere0 env\<rparr>) rs" for lm :: "('a, 'b) LightManager" and rs
    by (induction rs arbitrary: lm) (auto simp: addLight_def)
  have start: "mLights (snd (update this (cbs, lm0))) = []"
    by (simp add: update_def Let_def)
  show ?thesis
    by (simp add: getLights_def step start)
qed

subsection \<open>CullCallback\<close>

lemma collectLoop_filter:
  "i \<le> length lights \<Longrightarrow>
   collectLoop env lights nodeBound i lightList =
     lightList @ map int (filter (\<lambda>j. intersects env (mViewBound (lights ! j)) nodeBound)
                            [i..<length lights])"
proof (induction env lights nodeBound i lightList rule: collectLoop.induct)
  case (1 env lights nodeBound i lightList)
  show ?case
  proof (cases "i < length lights")
    case True
    then have up: "[i..<length lights] = i # [i + 1..<length lights]"
      by (simp add: upt_conv_Cons)
    from True have "i + 1 \<le> length lights" by simp
    from "1.IH" [OF True refl this] True show ?thesis
      by (subst collectLoop.simps) (simp add: up Let_def)
  next
    case False
    with "1.prems" show ?thesis
      by (subst collectLoop.simps) simp
  qed
qed

lemma popLoop_take: "popLoop lightList = take 8 lightList"
proof (induction lightList rule: popLoop.induct)
  case (1 lightList)
  show ?case
  proof (cases "length lightList > 8")
    case True
    have "take 8 (butlast lightList) = take 8 lightList"
      using True by (simp add: butlast_conv_take)
    with "1.IH" [OF True] True show ?thesis
      by (subst popLoop.simps) simp
  next
    case False
    then show ?thesis
      by (subst popLoop.simps) simp
  qed
qed

lemma CullCallback_call_selectedLights:
  "CullCallback_call env node cv (heap, lm) =
    (let lm' = prepareForCamera env (currentCameraViewMatrix cv) lm;
         nodeBound = transformBoundingSphere env (modelViewMatrix cv) (getBound env node);
         selected = selectedLights env (getLights lm') nodeBound
     in if selected = [] then Inr (Traverse, heap, lm')
        else (case getLightListStateSet env (map int selected) (heap, lm') of
                Inl e \<Rightarrow> Inl e
              | Inr (stateset, heap', lm'') \<Rightarrow> Inr (PushTraversePop stateset, heap', lm'')))"
  by (auto simp add: CullCallback_call_def Let_def collectLoop_filter popLoop_take
        selectedLights_def take_map split: sum.splits)

lemma filter_upt_sorted_list:
  "filter P [0..<n] = sorted_list_of_set {i. i < n \<and> P i}"
proof -
  have "sorted_list_of_set (set (filter P [0..<n])) = filter P [0..<n]"
    by (rule sorted_list_of_set.idem_if_sorted_distinct) (simp_all add: sorted_wrt_filter)
  moreover have "set (filter P [0..<n]) = {i. i < n \<and> P i}" by auto
  ultimately show ?thesis by simp
qed

text \<open>
  C1. Let \<open>lm'\<close> be the manager after \<open>prepareForCamera\<close>, \<open>nodeBound\<close> the
  bound of the node in view space and \<open>hits\<close> the set of the indices of the lights
  whose view bound meets \<open>nodeBound\<close>. The callback hands
  \<open>getLightListStateSet\<close> the list \<open>selected\<close>, or traverses without a state
  set when it is empty. \<open>selected\<close> is the first eight of \<open>hits\<close> in increasing
  order, the order of registration: it holds no index of a light that does not
  meet the node, it holds every index of \<open>hits\<close> when these are at most eight, and
  it has exactly eight members when they are more. The view bounds are those of
  the camera of this call when the call is the first to prepare the frame.
\<close>

theorem CullCallback_selection:
  assumes "lm' = prepareForCamera env (currentCameraViewMatrix cv) lm"
    and "nodeBound = transformBoundingSphere env (modelViewMatrix cv) (getBound env node)"
    and "hits = {i. i < length (getLights lm') \<and>
                    intersects env (mViewBound (getLights lm' ! i)) nodeBound}"
    and "selected = selectedLights env (getLights lm') nodeBound"
  shows "CullCallback_call env node cv (heap, lm) =
           (if selected = [] then Inr (Traverse, heap, lm')
            else (case getLightListStateSet env (map int selected) (heap, lm') of
                    Inl e \<Rightarrow> Inl e
                  | Inr (stateset, heap', lm'') \<Rightarrow>
                      Inr (PushTraversePop stateset, heap', lm''))) \<and>
         selected = take 8 (sorted_list_of_set hits) \<and>
         set selected \<subseteq> hits \<and>
         (card hits \<le> 8 \<longrightarrow> set selected = hits) \<and>
         (card hits > 8 \<longrightarrow> length selected = 8) \<and>
         (\<not> mLightsInViewSpace lm \<longrightarrow>
            map mViewBound (getLights lm') =
              map (\<lambda>l. transformBoundingSphere env
                          (matMult env (mWorldMatrix l) (currentCameraViewMatrix cv))
                          (BoundingSphere env (getRadius env (mLightSource l))))
                (getLights lm))"
proof -
  have fin: "finite hits" unfolding assms(3) by simp
  have sel: "selected = take 8 (sorted_list_of_set hits)"
    unfolding assms(4) assms(3) selectedLights_def filter_upt_sorted_list ..
  have sub: "set selected \<subseteq> hits"
    using fin set_take_subset [of 8 "sorted_list_of_set hits"] by (simp add: sel)
  have few: "set selected = hits" if "card hits \<le> 8"
    using that fin by (simp add: sel)
  have many: "length selected = 8" if "card hits > 8"
    using that by (simp add: sel)
  have run: "CullCallback_call env node cv (heap, lm) =
           (if selected = [] then Inr (Traverse, heap, lm')
            else (case getLightListStateSet env (map int selected) (heap, lm') of
                    Inl e \<Rightarrow> Inl e
                  | Inr (stateset, heap', lm'') \<Rightarrow>
                      Inr (PushTraversePop stateset, heap', lm'')))"
    unfolding assms(1,2,4) by (simp add: CullCallback_call_selectedLights Let_def)
  have bounds: "map mViewBound (getLights lm') =
              map (\<lambda>l. transformBoundingSphere env
                          (matMult env (mWorldMatrix l) (currentCameraViewMatrix cv))
                          (BoundingSphere env (getRadius env (mLightSource l))))
                (getLights lm)" if "\<not> mLightsInViewSpace lm"
    using that unfolding assms(1)
    by (simp add: prepareForCamera_def getLights_def toViewSpace_def Let_def)
  from run sel sub few many bounds show ?thesis by blast
qed

text \<open>
  Twelve lights of radius 2 and a node of radius 1 at 4, seen by a camera that
  shifts by 1: all lights but the one at 50 meet the node, and the first eight of
  them are selected.
\<close>

lemma selectedLights_example:
  "selectedLights line_env
     (getLights (prepareForCamera line_env 1 (lightsAt [0, 1, 2, 50, 3, 4, 5, 6, 0, 1, 2, 3])))
     (transformBoundingSphere line_env 4 (getBound line_env 0))
   = [0, 1, 2, 4, 5, 6, 7, 8]"
  by (simp add: selectedLights_def line_env_def lightsAt_def addLight_def LightManager_ctor_def
      prepareForCamera_def toViewSpace_def getLights_def upt_rec)

theorem CullCallback_selection_witness:
  "take 8 (sorted_list_of_set
     {i. i < length (getLights (prepareForCamera line_env 1
                       (lightsAt [0, 1, 2, 50, 3, 4, 5, 6, 0, 1, 2, 3]))) \<and>
         intersects line_env
           (mViewBound (getLights (prepareForCamera line_env 1
                          (lightsAt [0, 1, 2, 50, 3, 4, 5, 6, 0, 1, 2, 3])) ! i))
           (transformBoundingSphere line_env 4 (getBound line_env 0))})
   = [0, 1, 2, 4, 5, 6, 7, 8]"
  using CullCallback_selection [OF refl refl refl refl, where env = line_env
      and cv = "\<lparr>currentCameraViewMatrix = 1, modelViewMatrix = 4\<rparr>"
      and lm = "lightsAt [0, 1, 2, 50, 3, 4, 5, 6, 0, 1, 2, 3]" and node = 0 and heap = "[]"]
  by (simp only: selectedLights_example CullVisitor.simps)

subsection \<open>getLightListStateSet\<close>

lemma buildLoop_valid:
  assumes "\<forall>idx\<in>set lightList. 0 \<le> idx \<and> idx < int (length lights)"
  shows "\<exists>ss. buildLoop env lights lightList i stateset = Inr ss \<and>
           attributeList ss = (\<lambda>n. if i \<le> n \<and> n < length lightList
                                    then Some (clonedLight env lights (lightList ! n) n)
                                    else attributeList stateset n) \<and>
           modeList ss = modeList stateset \<union> {i..<length lightList}"
  using assms
proof (induction "length lightList - i" arbitrary: i stateset)
  case 0
  then have "\<not> i < length lightList" by simp
  then show ?case
    by (subst buildLoop.simps) (auto simp: fun_eq_iff)
next
  case (Suc k)
  then have True: "i < length lightList" and k: "k = length lightList - (i + 1)"
    by simp_all
  with Suc.prems have ok: "0 \<le> lightList ! i \<and> lightList ! i < int (length lights)"
    by simp
  define cl where "cl = clonedLight env lights (lightList ! i) i"
  define st where "st = setAssociatedModes cl (setAttribute cl stateset)"
  have step: "buildLoop env lights lightList i stateset = buildLoop env lights lightList (i + 1) st"
    using True ok by (subst buildLoop.simps) (simp add: Let_def st_def cl_def clonedLight_def)
  from Suc.hyps(1) [OF k Suc.prems, of st]
  obtain ss where ss: "buildLoop env lights lightList (i + 1) st = Inr ss"
    "attributeList ss = (\<lambda>n. if i + 1 \<le> n \<and> n < length lightList
                                  then Some (clonedLight env lights (lightList ! n) n)
                                  else attributeList st n)"
    "modeList ss = modeList st \<union> {i + 1..<length lightList}" by blast
  have num: "lightnum cl = i" by (simp add: cl_def clonedLight_def Let_def)
  have a: "attributeList st = (attributeList stateset)(i \<mapsto> cl)"
    by (simp add: st_def setAttribute_def setAssociatedModes_def num)
  have m: "modeList st = insert i (modeList stateset)"
    by (simp add: st_def setAttribute_def setAssociatedModes_def num)
  have "attributeList ss = (\<lambda>n. if i \<le> n \<and> n < length lightList
                                  then Some (clonedLight env lights (lightList ! n) n)
                                  else attributeList stateset n)"
    using True by (auto simp: ss(2) a cl_def fun_eq_iff)
  moreover have "modeList ss = modeList stateset \<union> {i..<length lightList}"
    using True by (auto simp: ss(3) m)
  ultimately show ?case using step ss(1) by simp
qed

lemma getLightListStateSet_hit:
  "mStateSetCache lm (hashLoop env lightList 0 0) = Some a \<Longrightarrow>
   getLightListStateSet env lightList (heap, lm) = Inr (a, heap, lm)"
  by (simp add: getLightListStateSet_def)

lemma getLightListStateSet_miss:
  "mStateSetCache lm (hashLoop env lightList 0 0) = None \<Longrightarrow>
   buildLoop env (mLights lm) lightList 0 new_StateSet = Inr ss \<Longrightarrow>
   getLightListStateSet env lightList (heap, lm) =
     Inr (length heap, heap @ [ss],
          lm\<lparr>mStateSetCache := (mStateSetCache lm)(hashLoop env lightList 0 0 \<mapsto> length heap)\<rparr>)"
  by (simp add: getLightListStateSet_def Let_def)

lemma getLightListStateSet_cases:
  assumes "getLightListStateSet env lightList (heap, lm) = Inr (a, heap', lm')"
  obtains (hit) "mStateSetCache lm (hashLoop env lightList 0 0) = Some a" "heap' = heap" "lm' = lm"
  | (miss) ss where "mStateSetCache lm (hashLoop env lightList 0 0) = None"
      "buildLoop env (mLights lm) lightList 0 new_StateSet = Inr ss"
      "a = length heap" "heap' = heap @ [ss]"
      "lm' = lm\<lparr>mStateSetCache := (mStateSetCache lm)(hashLoop env lightList 0 0 \<mapsto> length heap)\<rparr>"
  using assms
  by (auto simp: getLightListStateSet_def Let_def split: option.splits sum.splits)

lemma getLightListStateSet_cached:
  assumes "getLightListStateSet env lightList (heap, lm) = Inr (a, heap', lm')"
  shows "mStateSetCache lm' (hashLoop env lightList 0 0) = Some a"
  using assms by (cases rule: getLightListStateSet_cases) simp_all

lemma getLightListStateSet_keeps:
  assumes "getLightListStateSet env lightList (heap, lm) = Inr (a, heap', lm')"
    and "mStateSetCache lm h = Some b"
  shows "mStateSetCache lm' h = Some b"
  using assms by (cases rule: getLightListStateSet_cases) auto

lemma getLightListStateSet_heap:
  assumes "getLightListStateSet env lightList (heap, lm) = Inr (a, heap', lm')"
  shows "\<exists>new. heap' = heap @ new"
  using assms by (cases rule: getLightListStateSet_cases) auto

lemma getLightListStateSet_mLights:
  assumes "getLightListStateSet env lightList (heap, lm) = Inr (a, heap', lm')"
  shows "mLights lm' = mLights lm"
  using assms by (cases rule: getLightListStateSet_cases) auto

lemma getLightListStateSet_cache_ok:
  assumes "getLightListStateSet env lightList (heap, lm) = Inr (a, heap', lm')"
    and ok: "cache_ok heap lm"
  shows "cache_ok heap' lm'"
  using assms(1)
proof (cases rule: getLightListStateSet_cases)
  case hit
  with ok show ?thesis by simp
next
  case (miss ss)
  let ?c = "mStateSetCache lm" and ?k = "hashLoop env lightList 0 0"
  from ok have inj: "inj_on ?c (dom ?c)" and ran: "ran ?c \<subseteq> {..<length heap}"
    by (simp_all add: cache_ok_def)
  have fresh: "?c h \<noteq> Some (length heap)" for h
    using ran by (auto simp: ran_def)
  have "inj_on (?c(?k \<mapsto> length heap)) (dom (?c(?k \<mapsto> length heap)))"
    using inj fresh by (auto simp: inj_on_def dom_def)
  moreover have "ran (?c(?k \<mapsto> length heap)) \<subseteq> {..<length (heap @ [ss])}"
    using ran by (auto simp: ran_def split: if_splits)
  ultimately show ?thesis
    by (simp add: cache_ok_def miss)
qed

lemma cache_ok_empty: "mStateSetCache lm = Map.empty \<Longrightarrow> cache_ok heap lm"
  by (simp add: cache_ok_def)

lemma cache_ok_extend: "cache_ok heap lm \<Longrightarrow> cache_ok (heap @ new) lm"
  by (auto simp: cache_ok_def)

lemma prepareForCamera_cache:
  "mStateSetCache (prepareForCamera env cam lm) = mStateSetCache lm"
  by (simp add: prepareForCamera_def)

lemma addLight_cache:
  "mStateSetCache (addLight env lightSource worldMat lm) = mStateSetCache lm"
  by (simp add: addLight_def Let_def)

lemma call_cache_ok:
  assumes "call env this c (cbs, heap, lm) = Inr (cbs', heap', lm')" and "cache_ok heap lm"
  shows "cache_ok heap' lm'"
proof (cases c)
  case Update
  with assms(1) have "mStateSetCache lm' = Map.empty" "heap' = heap"
    by (auto simp: update_def Let_def split: if_splits)
  then show ?thesis by (simp add: cache_ok_empty)
next
  case (AddLight lightSource worldMat)
  with assms show ?thesis by (auto simp: addLight_cache cache_ok_def)
next
  case (PrepareForCamera cam)
  with assms show ?thesis by (auto simp: prepareForCamera_cache cache_ok_def)
next
  case (GetLightListStateSet lightList)
  with assms show ?thesis
    by (auto split: sum.splits dest: getLightListStateSet_cache_ok)
qed

lemma calls_cache_ok:
  "calls env this ops (cbs, heap, lm) = Inr (cbs', heap', lm') \<Longrightarrow> cache_ok heap lm \<Longrightarrow>
   cache_ok heap' lm'"
proof (induction ops arbitrary: cbs heap lm)
  case Nil
  then show ?case by simp
next
  case (Cons c ops)
  from Cons.prems(1) obtain cbs1 heap1 lm1
    where c: "call env this c (cbs, heap, lm) = Inr (cbs1, heap1, lm1)"
      and r: "calls env this ops (cbs1, heap1, lm1) = Inr (cbs', heap', lm')"
    by (auto split: sum.splits)
  from Cons.IH [OF r call_cache_ok [OF c Cons.prems(2)]] show ?case .
qed

lemma call_keeps:
  assumes "call env this c (cbs, heap, lm) = Inr (cbs', heap', lm')" and "c \<noteq> Update"
  shows "(mStateSetCache lm h = Some b \<longrightarrow> mStateSetCache lm' h = Some b) \<and>
         (\<exists>new. heap' = heap @ new)"
proof (cases c)
  case Update
  with assms(2) show ?thesis by simp
next
  case (AddLight lightSource worldMat)
  with assms show ?thesis by (auto simp: addLight_cache)
next
  case (PrepareForCamera cam)
  with assms show ?thesis by (auto simp: prepareForCamera_cache)
next
  case (GetLightListStateSet lightList)
  with assms show ?thesis
    by (auto split: sum.splits dest: getLightListStateSet_keeps getLightListStateSet_heap)
qed

lemma calls_keeps:
  "calls env this ops (cbs, heap, lm) = Inr (cbs', heap', lm') \<Longrightarrow> Update \<notin> set ops \<Longrightarrow>
   (mStateSetCache lm h = Some b \<longrightarrow> mStateSetCache lm' h = Some b) \<and>
   (\<exists>new. heap' = heap @ new)"
proof (induction ops arbitrary: cbs heap lm)
  case Nil
  then show ?case by simp
next
  case (Cons c ops)
  from Cons.prems(1) obtain cbs1 heap1 lm1
    where c: "call env this c (cbs, heap, lm) = Inr (cbs1, heap1, lm1)"
      and r: "calls env this ops (cbs1, heap1, lm1) = Inr (cbs', heap', lm')"
    by (auto split: sum.splits)
  from Cons.prems(2) have "c \<noteq> Update" "Update \<notin> set ops" by auto
  with call_keeps [OF c, of h b] Cons.IH [OF r] show ?case by auto
qed

lemma getLightListStateSet_returns:
  assumes "\<forall>idx\<in>set lightList. 0 \<le> idx \<and> idx < int (length (mLights lm))"
  shows "\<exists>a heap' lm'. getLightListStateSet env lightList (heap, lm) = Inr (a, heap', lm')"
proof (cases "mStateSetCache lm (hashLoop env lightList 0 0)")
  case None
  from buildLoop_valid [OF assms, of env 0 new_StateSet]
  obtain ss where "buildLoop env (mLights lm) lightList 0 new_StateSet = Inr ss" by blast
  with None show ?thesis by (simp add: getLightListStateSet_miss)
next
  case (Some a)
  then show ?thesis by (simp add: getLightListStateSet_hit)
qed

lemma mLights_lightsAt:
  "mLights (lightsAt centres) =
     map (\<lambda>c. \<lparr>mLightSource = 2, mWorldMatrix = c, mViewBound = (0, - 1)\<rparr>) centres"
proof -
  have "mLights (foldl (\<lambda>lm c. addLight line_env 2 c lm) lm centres) =
     mLights lm @ map (\<lambda>c. \<lparr>mLightSource = 2, mWorldMatrix = c, mViewBound = (0, - 1)\<rparr>) centres"
    for lm :: "(int, int \<times> int) LightManager"
    by (induction centres arbitrary: lm) (simp_all add: addLight_def line_env_def)
  then show ?thesis by (simp add: lightsAt_def LightManager_ctor_def)
qed

lemma cache_lightsAt: "mStateSetCache (lightsAt centres) = Map.empty"
proof -
  have "mStateSetCache (foldl (\<lambda>lm c. addLight line_env 2 c lm) lm centres) = mStateSetCache lm"
    for lm :: "(int, int \<times> int) LightManager"
    by (induction centres arbitrary: lm) (simp_all add: addLight_cache)
  then show ?thesis by (simp add: lightsAt_def LightManager_ctor_def)
qed

lemma hash_collision: "hashLoop line_env [8, 21] 0 0 = hashLoop line_env [6, 24] 0 0"
  by (simp add: hashLoop.simps line_env_def boost_hash_combine_def)

text \<open>
  Whatever \<open>hash_combine\<close> is, the key has 64 bits and there are more lists of
  at most eight indices below 256 than keys: two different lists have the same
  key, and with 256 lights or more they share one state set.
\<close>

lemma every_hash_collides:
  fixes env :: "('m, 'b, 'r, 'v, 'p) env"
  shows "\<exists>xs ys. xs \<noteq> ys \<and> length xs \<le> 8 \<and> length ys \<le> 8 \<and>
           set xs \<subseteq> {0..<256} \<and> set ys \<subseteq> {0..<256} \<and>
           hashLoop env xs 0 0 = hashLoop env ys 0 0"
proof -
  define S :: "int list set" where "S = insert [] {xs. set xs \<subseteq> {0..<256} \<and> length xs = 8}"
  define key where "key = (\<lambda>xs. hashLoop env xs 0 0)"
  have fin8: "finite {xs :: int list. set xs \<subseteq> {0..<256} \<and> length xs = 8}"
    by (rule finite_lists_length_eq) simp
  have "card {xs :: int list. set xs \<subseteq> {0..<256} \<and> length xs = 8} = card {0..<256 :: int} ^ 8"
    by (rule card_lists_length_eq) simp
  then have card8: "card {xs :: int list. set xs \<subseteq> {0..<256} \<and> length xs = 8} = 2 ^ 64"
    by simp
  have fin: "finite S" by (simp add: S_def fin8)
  have "card S = Suc (2 ^ 64)"
    unfolding S_def using fin8 card8 by (subst card_insert_disjoint) auto
  moreover have "card (key ` S) \<le> card (UNIV :: size_t set)"
    by (rule card_mono) simp_all
  moreover have "card (UNIV :: size_t set) = 2 ^ 64"
    by (simp add: card_word)
  ultimately have "card (key ` S) < card S" by simp
  then have "\<not> inj_on key S"
    by (metis card_image less_irrefl)
  then obtain xs ys where "xs \<in> S" "ys \<in> S" "xs \<noteq> ys" "key xs = key ys"
    by (auto simp: inj_on_def)
  then show ?thesis
    unfolding S_def key_def by (intro exI [of _ xs] exI [of _ ys]) auto
qed

lemma every_hash_shares_a_state_set:
  fixes env :: "('m, 'b, 'r, 'v, 'p) env"
  assumes "256 \<le> length (mLights lm)"
  shows "\<exists>xs ys a. xs \<noteq> ys \<and> length xs \<le> 8 \<and> length ys \<le> 8 \<and>
           (\<forall>idx\<in>set xs. 0 \<le> idx \<and> idx < int (length (mLights lm))) \<and>
           (\<forall>idx\<in>set ys. 0 \<le> idx \<and> idx < int (length (mLights lm))) \<and>
           getLightListStateSets env [xs, ys] (heap, lm) = Inr [a, a]"
proof -
  from every_hash_collides [of env] obtain xs ys
    where diff: "xs \<noteq> ys" and len: "length xs \<le> 8" "length ys \<le> 8"
      and xs: "set xs \<subseteq> {0..<256}" and ys: "set ys \<subseteq> {0..<256}"
      and key: "hashLoop env xs 0 0 = hashLoop env ys 0 0"
    by blast
  have vx: "\<forall>idx\<in>set xs. 0 \<le> idx \<and> idx < int (length (mLights lm))"
    using xs assms by auto
  have vy: "\<forall>idx\<in>set ys. 0 \<le> idx \<and> idx < int (length (mLights lm))"
    using ys assms by auto
  from getLightListStateSet_returns [OF vx, of env heap] obtain a heap1 lm1
    where first: "getLightListStateSet env xs (heap, lm) = Inr (a, heap1, lm1)"
    by blast
  have "mStateSetCache lm1 (hashLoop env ys 0 0) = Some a"
    using getLightListStateSet_cached [OF first] by (simp add: key)
  then have "getLightListStateSet env ys (heap1, lm1) = Inr (a, heap1, lm1)"
    by (rule getLightListStateSet_hit)
  with first have "getLightListStateSets env [xs, ys] (heap, lm) = Inr [a, a]"
    by simp
  with diff len vx vy show ?thesis by blast
qed

text \<open>
  C2, as the specification words it, fails. With \<open>hash_combine\<close> as the Boost
  library documents it and twenty-five lights, the lists \<open>[6, 24]\<close> and
  \<open>[8, 21]\<close> have the same hash, and the second call returns the state set that
  the first call built: two different lists, one object.
\<close>

theorem different_lists_same_object:
  "getLightListStateSets line_env [[6, 24], [8, 21]] ([], twentyFiveLights) = Inr [0, 0]"
proof -
  have empty: "mStateSetCache twentyFiveLights (hashLoop line_env [6, 24] 0 0) = None"
    by (simp add: twentyFiveLights_def cache_lightsAt)
  have "\<forall>idx\<in>set [6, 24]. 0 \<le> idx \<and> idx < int (length (mLights twentyFiveLights))"
    by (simp add: twentyFiveLights_def mLights_lightsAt)
  from getLightListStateSet_returns [OF this, of line_env "[]"] obtain a heap1 lm1
    where first: "getLightListStateSet line_env [6, 24] ([], twentyFiveLights) = Inr (a, heap1, lm1)"
    by blast
  from first empty have a: "a = 0"
    by (cases rule: getLightListStateSet_cases) simp_all
  have "mStateSetCache lm1 (hashLoop line_env [8, 21] 0 0) = Some a"
    using getLightListStateSet_cached [OF first] by (simp add: hash_collision)
  then have "getLightListStateSet line_env [8, 21] (heap1, lm1) = Inr (a, heap1, lm1)"
    by (rule getLightListStateSet_hit)
  with first a show ?thesis by simp
qed

text \<open>
  C2, amended. In a state that calls have reached from an empty cache, a call with
  a list of indices into the lights returns a state set, and after any further
  calls other than \<open>update\<close> a call with the same list returns the same state
  set and changes nothing. A call with a list whose hash is different returns
  another state set. (Two different lists with the same hash share one state
  set, as the example above shows.)
\<close>

theorem getLightListStateSet_same_object:
  assumes start: "mStateSetCache lm0 = Map.empty"
    and frame: "calls env this ops0 (cbs0, heap0, lm0) = Inr (cbs, heap, lm)"
    and valid: "\<forall>idx\<in>set lightList. 0 \<le> idx \<and> idx < int (length (mLights lm))"
    and no_update: "Update \<notin> set ops"
  shows "\<exists>a heap1 lm1.
           getLightListStateSet env lightList (heap, lm) = Inr (a, heap1, lm1) \<and>
           (\<forall>cbs2 heap2 lm2.
              calls env this ops (cbs, heap1, lm1) = Inr (cbs2, heap2, lm2) \<longrightarrow>
              getLightListStateSet env lightList (heap2, lm2) = Inr (a, heap2, lm2) \<and>
              (\<forall>other.
                 hashLoop env other 0 0 \<noteq> hashLoop env lightList 0 0 \<longrightarrow>
                 (\<forall>idx\<in>set other. 0 \<le> idx \<and> idx < int (length (mLights lm2))) \<longrightarrow>
                 (\<exists>b heap3 lm3.
                    getLightListStateSet env other (heap2, lm2) = Inr (b, heap3, lm3) \<and> b \<noteq> a)))"
proof -
  from getLightListStateSet_returns [OF valid] obtain a heap1 lm1
    where first: "getLightListStateSet env lightList (heap, lm) = Inr (a, heap1, lm1)" by blast
  have ok: "cache_ok heap lm"
    by (rule calls_cache_ok [OF frame cache_ok_empty [OF start]])
  have ok1: "cache_ok heap1 lm1"
    by (rule getLightListStateSet_cache_ok [OF first ok])
  have in1: "mStateSetCache lm1 (hashLoop env lightList 0 0) = Some a"
    by (rule getLightListStateSet_cached [OF first])
  have later: "getLightListStateSet env lightList (heap2, lm2) = Inr (a, heap2, lm2) \<and>
      (\<forall>other.
         hashLoop env other 0 0 \<noteq> hashLoop env lightList 0 0 \<longrightarrow>
         (\<forall>idx\<in>set other. 0 \<le> idx \<and> idx < int (length (mLights lm2))) \<longrightarrow>
         (\<exists>b heap3 lm3.
            getLightListStateSet env other (heap2, lm2) = Inr (b, heap3, lm3) \<and> b \<noteq> a))"
    if run: "calls env this ops (cbs, heap1, lm1) = Inr (cbs2, heap2, lm2)" for cbs2 heap2 lm2
  proof -
    from calls_keeps [OF run no_update, of "hashLoop env lightList 0 0" a] in1
    have in2: "mStateSetCache lm2 (hashLoop env lightList 0 0) = Some a" by simp
    have ok2: "cache_ok heap2 lm2"
      by (rule calls_cache_ok [OF run ok1])
    have same: "getLightListStateSet env lightList (heap2, lm2) = Inr (a, heap2, lm2)"
      by (rule getLightListStateSet_hit [OF in2])
    have diff: "\<exists>b heap3 lm3.
            getLightListStateSet env other (heap2, lm2) = Inr (b, heap3, lm3) \<and> b \<noteq> a"
      if key: "hashLoop env other 0 0 \<noteq> hashLoop env lightList 0 0"
        and v: "\<forall>idx\<in>set other. 0 \<le> idx \<and> idx < int (length (mLights lm2))" for other
    proof -
      from getLightListStateSet_returns [OF v] obtain b heap3 lm3
        where second: "getLightListStateSet env other (heap2, lm2) = Inr (b, heap3, lm3)" by blast
      have ok3: "cache_ok heap3 lm3"
        by (rule getLightListStateSet_cache_ok [OF second ok2])
      have "mStateSetCache lm3 (hashLoop env other 0 0) = Some b"
        by (rule getLightListStateSet_cached [OF second])
      moreover have "mStateSetCache lm3 (hashLoop env lightList 0 0) = Some a"
        by (rule getLightListStateSet_keeps [OF second in2])
      ultimately have "b \<noteq> a"
        using ok3 key by (auto simp: cache_ok_def inj_on_def dom_def)
      with second show ?thesis by blast
    qed
    from same diff show ?thesis by blast
  qed
  from first later show ?thesis by blast
qed

theorem getLightListStateSet_same_object_witness:
  "\<exists>a heap1 lm1.
     getLightListStateSet line_env [0, 2] ([], lightsAt [10, 20, 30]) = Inr (a, heap1, lm1) \<and>
     (\<exists>cbs2 heap2 lm2.
        calls line_env 0 [AddLight 2 40, PrepareForCamera 1] (\<lambda>n. [], heap1, lm1)
          = Inr (cbs2, heap2, lm2) \<and>
        getLightListStateSet line_env [0, 2] (heap2, lm2) = Inr (a, heap2, lm2) \<and>
        (\<exists>b heap3 lm3.
           getLightListStateSet line_env [2, 0] (heap2, lm2) = Inr (b, heap3, lm3) \<and> b \<noteq> a))"
proof -
  have start: "mStateSetCache (LightManager_ctor :: (int, int \<times> int) LightManager) = Map.empty"
    by (simp add: LightManager_ctor_def)
  have frame: "calls line_env 0 [AddLight 2 10, AddLight 2 20, AddLight 2 30]
                 (\<lambda>n. [], [], LightManager_ctor) = Inr (\<lambda>n. [], [], lightsAt [10, 20, 30])"
    by (simp add: lightsAt_def)
  have valid: "\<forall>idx\<in>set [0, 2]. 0 \<le> idx \<and> idx < int (length (mLights (lightsAt [10, 20, 30])))"
    by (simp add: mLights_lightsAt)
  have no_update: "Update \<notin> set [AddLight 2 40, PrepareForCamera (1 :: int)]"
    by simp
  from getLightListStateSet_same_object [OF start frame valid no_update]
  obtain a heap1 lm1 where
    first: "getLightListStateSet line_env [0, 2] ([], lightsAt [10, 20, 30]) = Inr (a, heap1, lm1)"
    and later: "\<forall>cbs2 heap2 lm2.
              calls line_env 0 [AddLight 2 40, PrepareForCamera 1] (\<lambda>n. [], heap1, lm1)
                = Inr (cbs2, heap2, lm2) \<longrightarrow>
              getLightListStateSet line_env [0, 2] (heap2, lm2) = Inr (a, heap2, lm2) \<and>
              (\<forall>other.
                 hashLoop line_env other 0 0 \<noteq> hashLoop line_env [0, 2] 0 0 \<longrightarrow>
                 (\<forall>idx\<in>set other. 0 \<le> idx \<and> idx < int (length (mLights lm2))) \<longrightarrow>
                 (\<exists>b heap3 lm3.
                    getLightListStateSet line_env other (heap2, lm2) = Inr (b, heap3, lm3) \<and> b \<noteq> a))"
    by (elim exE conjE)
  define lm2 where "lm2 = prepareForCamera line_env 1 (addLight line_env 2 40 lm1)"
  have run: "calls line_env 0 [AddLight 2 40, PrepareForCamera 1] (\<lambda>n. [], heap1, lm1)
               = Inr (\<lambda>n. [], heap1, lm2)"
    by (simp add: lm2_def)
  have "length (mLights lm1) = 3"
    using getLightListStateSet_mLights [OF first] by (simp add: mLights_lightsAt)
  then have len: "length (mLights lm2) = 4"
    by (simp add: lm2_def prepareForCamera_def addLight_def Let_def)
  have key: "hashLoop line_env [2, 0] 0 0 \<noteq> hashLoop line_env [0, 2] 0 0"
    by (simp add: hashLoop.simps line_env_def boost_hash_combine_def)
  have valid2: "\<forall>idx\<in>set [2, 0]. 0 \<le> idx \<and> idx < int (length (mLights lm2))"
    by (simp add: len)
  from later [rule_format, OF run]
  have same: "getLightListStateSet line_env [0, 2] (heap1, lm2) = Inr (a, heap1, lm2)"
    and other: "\<forall>other.
                 hashLoop line_env other 0 0 \<noteq> hashLoop line_env [0, 2] 0 0 \<longrightarrow>
                 (\<forall>idx\<in>set other. 0 \<le> idx \<and> idx < int (length (mLights lm2))) \<longrightarrow>
                 (\<exists>b heap3 lm3.
                    getLightListStateSet line_env other (heap1, lm2) = Inr (b, heap3, lm3) \<and> b \<noteq> a)"
    by blast+
  from other [THEN spec, of "[2, 0]"] key valid2
  have "\<exists>b heap3 lm3.
          getLightListStateSet line_env [2, 0] (heap1, lm2) = Inr (b, heap3, lm3) \<and> b \<noteq> a"
    by blast
  with first run same show ?thesis
    by blast
qed

text \<open>
  C10. The cache is keyed by the hash of the list alone. When two lists have the
  same hash, whatever their contents and lengths, and a call with the first has
  returned a state set, then after any calls other than \<open>update\<close> a call with
  the second returns that same state set and changes nothing; and when the first
  call found no entry, this state set is the one built from the first list.
\<close>

theorem getLightListStateSet_collision:
  assumes key: "hashLoop env other 0 0 = hashLoop env lightList 0 0"
    and first: "getLightListStateSet env lightList (heap, lm) = Inr (a, heap1, lm1)"
    and no_update: "Update \<notin> set ops"
    and run: "calls env this ops (cbs, heap1, lm1) = Inr (cbs2, heap2, lm2)"
  shows "getLightListStateSet env other (heap2, lm2) = Inr (a, heap2, lm2) \<and>
         (mStateSetCache lm (hashLoop env lightList 0 0) = None \<longrightarrow>
            buildLoop env (mLights lm) lightList 0 new_StateSet = Inr (heap2 ! a))"
proof -
  have in1: "mStateSetCache lm1 (hashLoop env lightList 0 0) = Some a"
    by (rule getLightListStateSet_cached [OF first])
  from calls_keeps [OF run no_update, of "hashLoop env lightList 0 0" a] in1
  have in2: "mStateSetCache lm2 (hashLoop env other 0 0) = Some a"
    and ext: "\<exists>new. heap2 = heap1 @ new" by (simp_all add: key)
  have same: "getLightListStateSet env other (heap2, lm2) = Inr (a, heap2, lm2)"
    by (rule getLightListStateSet_hit [OF in2])
  have built: "buildLoop env (mLights lm) lightList 0 new_StateSet = Inr (heap2 ! a)"
    if "mStateSetCache lm (hashLoop env lightList 0 0) = None"
    using first
  proof (cases rule: getLightListStateSet_cases)
    case hit
    with that show ?thesis by simp
  next
    case (miss ss)
    with ext show ?thesis by (auto simp: nth_append)
  qed
  from same built show ?thesis by blast
qed

theorem getLightListStateSet_collision_witness:
  "hashLoop line_env [8, 21] 0 0 = hashLoop line_env [6, 24] 0 0 \<and>
   (\<exists>a heap1 lm1.
     getLightListStateSet line_env [6, 24] ([], twentyFiveLights) = Inr (a, heap1, lm1) \<and>
     getLightListStateSet line_env [8, 21] (heap1, prepareForCamera line_env 1 lm1)
       = Inr (a, heap1, prepareForCamera line_env 1 lm1) \<and>
     buildLoop line_env (mLights twentyFiveLights) [6, 24] 0 new_StateSet = Inr (heap1 ! a))"
proof -
  have "\<forall>idx\<in>set [6, 24]. 0 \<le> idx \<and> idx < int (length (mLights twentyFiveLights))"
    by (simp add: twentyFiveLights_def mLights_lightsAt)
  from getLightListStateSet_returns [OF this, of line_env "[]"] obtain a heap1 lm1
    where first: "getLightListStateSet line_env [6, 24] ([], twentyFiveLights) = Inr (a, heap1, lm1)"
    by blast
  have no_update: "Update \<notin> set [PrepareForCamera (1 :: int)]"
    by simp
  have run: "calls line_env 0 [PrepareForCamera 1] (\<lambda>n. [], heap1, lm1)
               = Inr (\<lambda>n. [], heap1, prepareForCamera line_env 1 lm1)"
    by simp
  have empty: "mStateSetCache twentyFiveLights (hashLoop line_env [6, 24] 0 0) = None"
    by (simp add: twentyFiveLights_def cache_lightsAt)
  from getLightListStateSet_collision [OF hash_collision first no_update run] empty first
  show ?thesis
    by (simp add: hash_collision)
qed

lemma buildLoop_new:
  fixes env :: "('m, 'b, 'r, 'v, 'p) env"
  assumes "\<forall>idx\<in>set lightList. 0 \<le> idx \<and> idx < int (length lights)"
  shows "\<exists>ss. buildLoop env lights lightList 0 new_StateSet = Inr ss \<and>
           attributeList ss = (\<lambda>n. if n < length lightList
              then Some (clonedLight env lights (lightList ! n) n) else None) \<and>
           modeList ss = {..<length lightList}"
proof -
  have a: "attributeList (new_StateSet :: ('v, 'p) StateSet) = Map.empty"
    and m: "modeList (new_StateSet :: ('v, 'p) StateSet) = {}"
    by (simp_all add: new_StateSet_def)
  show ?thesis
    using buildLoop_valid [OF assms, of env 0 new_StateSet]
    unfolding a m by (simp add: atLeast0LessThan)
qed

text \<open>
  C6. When the cache has no entry for the list and every index of the list is an
  index into the lights, the state set that \<open>getLightListStateSet\<close> builds has,
  for every position \<open>i\<close> of the list, the light of the light source at index
  \<open>lightList ! i\<close> under the light number \<open>i\<close>, placed by the world matrix of
  that registration; it has no other lights, and it switches on the modes of
  exactly these light numbers.
\<close>

theorem getLightListStateSet_slots:
  assumes miss: "mStateSetCache lm (hashLoop env lightList 0 0) = None"
    and valid: "\<forall>idx\<in>set lightList. 0 \<le> idx \<and> idx < int (length (mLights lm))"
  shows "\<exists>stateset heap' lm'.
           getLightListStateSet env lightList (heap, lm) = Inr (stateset, heap', lm') \<and>
           stateset < length heap' \<and>
           (\<forall>i<length lightList.
              \<exists>light. attributeList (heap' ! stateset) i = Some light \<and>
                lightnum light = i \<and>
                position light =
                  preMult env (mWorldMatrix (mLights lm ! nat (lightList ! i)))
                    (position (getLight env (mLightSource (mLights lm ! nat (lightList ! i))))) \<and>
                lightParams light =
                  lightParams (getLight env (mLightSource (mLights lm ! nat (lightList ! i))))) \<and>
           dom (attributeList (heap' ! stateset)) = {..<length lightList} \<and>
           modeList (heap' ! stateset) = {..<length lightList}"
proof -
  have "\<exists>ss. buildLoop env (mLights lm) lightList 0 new_StateSet = Inr ss \<and>
          attributeList ss = (\<lambda>n. if n < length lightList
             then Some (clonedLight env (mLights lm) (lightList ! n) n) else None) \<and>
          modeList ss = {..<length lightList}"
    by (rule buildLoop_new [OF valid])
  then obtain ss
    where ss: "buildLoop env (mLights lm) lightList 0 new_StateSet = Inr ss"
      and attrs: "attributeList ss = (\<lambda>n. if n < length lightList
                    then Some (clonedLight env (mLights lm) (lightList ! n) n) else None)"
      and modes: "modeList ss = {..<length lightList}"
    by (elim exE conjE)
  have "getLightListStateSet env lightList (heap, lm) =
          Inr (length heap, heap @ [ss],
               lm\<lparr>mStateSetCache := (mStateSetCache lm)(hashLoop env lightList 0 0 \<mapsto> length heap)\<rparr>)"
    by (rule getLightListStateSet_miss [OF miss ss])
  moreover have "(heap @ [ss]) ! length heap = ss" by simp
  moreover have "dom (attributeList ss) = {..<length lightList}"
    by (auto simp: attrs split: if_splits)
  moreover have "\<forall>i<length lightList.
              \<exists>light. attributeList ss i = Some light \<and>
                lightnum light = i \<and>
                position light =
                  preMult env (mWorldMatrix (mLights lm ! nat (lightList ! i)))
                    (position (getLight env (mLightSource (mLights lm ! nat (lightList ! i))))) \<and>
                lightParams light =
                  lightParams (getLight env (mLightSource (mLights lm ! nat (lightList ! i))))"
    by (simp add: attrs clonedLight_def Let_def)
  ultimately show ?thesis using modes by auto
qed

theorem getLightListStateSet_slots_witness:
  "\<exists>stateset heap' lm'.
     getLightListStateSet line_env [2, 0] ([], lightsAt [10, 20, 30]) = Inr (stateset, heap', lm') \<and>
     map (\<lambda>i. map_option (\<lambda>light. (lightnum light, position light))
                 (attributeList (heap' ! stateset) i)) [0, 1, 2]
       = [Some (0, 32), Some (1, 12), None]"
proof -
  have miss: "mStateSetCache (lightsAt [10, 20, 30]) (hashLoop line_env [2, 0] 0 0) = None"
    by (simp add: cache_lightsAt)
  have valid: "\<forall>idx\<in>set [2, 0]. 0 \<le> idx \<and> idx < int (length (mLights (lightsAt [10, 20, 30])))"
    by (simp add: mLights_lightsAt)
  from getLightListStateSet_slots [OF miss valid, where heap = "[]"]
  obtain stateset heap' lm' where
    r: "getLightListStateSet line_env [2, 0] ([], lightsAt [10, 20, 30]) = Inr (stateset, heap', lm')"
    and slots: "\<forall>i<length [2, 0 :: int].
              \<exists>light. attributeList (heap' ! stateset) i = Some light \<and>
                lightnum light = i \<and>
                position light =
                  preMult line_env (mWorldMatrix (mLights (lightsAt [10, 20, 30]) ! nat ([2, 0] ! i)))
                    (position (getLight line_env (mLightSource (mLights (lightsAt [10, 20, 30]) ! nat ([2, 0] ! i))))) \<and>
                lightParams light =
                  lightParams (getLight line_env (mLightSource (mLights (lightsAt [10, 20, 30]) ! nat ([2, 0] ! i))))"
    and dom: "dom (attributeList (heap' ! stateset)) = {..<length [2, 0 :: int]}"
    by (elim exE conjE)
  from slots [THEN spec, of 0] have "\<exists>light. attributeList (heap' ! stateset) 0 = Some light \<and>
                lightnum light = 0 \<and> position light = 32"
    by (simp add: mLights_lightsAt line_env_def)
  then have s0: "map_option (\<lambda>light. (lightnum light, position light))
                 (attributeList (heap' ! stateset) 0) = Some (0, 32)"
    by auto
  from slots [THEN spec, of 1] have "\<exists>light. attributeList (heap' ! stateset) 1 = Some light \<and>
                lightnum light = 1 \<and> position light = 12"
    by (simp add: mLights_lightsAt line_env_def)
  then have s1: "map_option (\<lambda>light. (lightnum light, position light))
                 (attributeList (heap' ! stateset) 1) = Some (1, 12)"
    by auto
  from dom have "2 \<notin> dom (attributeList (heap' ! stateset))"
    by simp
  then have s2: "attributeList (heap' ! stateset) 2 = None"
    by (simp add: dom_def)
  from r s0 s1 s2 show ?thesis by simp
qed

subsection \<open>CollectLightCallback\<close>

lemma findLightManager_first:
  assumes "i < length nodePath" and "managers (nodePath ! i) \<noteq> None"
    and "\<forall>j<i. managers (nodePath ! j) = None" and "k \<le> i"
  shows "findLightManager managers nodePath k = Some (nodePath ! i)"
  using assms
proof (induction "i - k" arbitrary: k)
  case 0
  then have "k = i" by simp
  with 0 show ?case
    by (subst findLightManager.simps) simp
next
  case (Suc d)
  then have "k < i" by simp
  with Suc.prems have "k < length nodePath" "managers (nodePath ! k) = None" by simp_all
  moreover have "findLightManager managers nodePath (k + 1) = Some (nodePath ! i)"
    using Suc.hyps(2) \<open>k < i\<close> by (intro Suc.hyps(1) Suc.prems(1,2,3)) simp_all
  ultimately show ?case
    by (subst findLightManager.simps) simp
qed

lemma findLightManager_none:
  assumes "\<forall>a\<in>set nodePath. managers a = None"
  shows "findLightManager managers nodePath k = None"
  using assms
proof (induction "length nodePath - k" arbitrary: k)
  case 0
  then show ?case
    by (subst findLightManager.simps) simp
next
  case (Suc d)
  then have "k < length nodePath" by simp
  with Suc.prems have "managers (nodePath ! k) = None" by simp
  moreover have "findLightManager managers nodePath (k + 1) = None"
    using Suc.hyps(2) by (intro Suc.hyps(1) Suc.prems) simp
  ultimately show ?case
    by (subst findLightManager.simps) simp
qed

lemma CollectLightCallback_call_first:
  assumes "mLightManager cb = None" and "i < length nodePath"
    and "managers (nodePath ! i) = Some lm" and "\<forall>j<i. managers (nodePath ! j) = None"
  shows "CollectLightCallback_call env node nodePath (cb, managers) =
        (Inr (), cb\<lparr>mLightManager := Some (nodePath ! i)\<rparr>,
         managers(nodePath ! i \<mapsto> addLight env node (computeLocalToWorld env nodePath) lm))"
proof -
  have "findLightManager managers nodePath 0 = Some (nodePath ! i)"
    using assms by (intro findLightManager_first) simp_all
  with assms show ?thesis
    by (simp add: CollectLightCallback_call_def Let_def)
qed

lemma CollectLightCallback_call_held:
  assumes "mLightManager cb = Some held" and "managers held = Some lm"
  shows "CollectLightCallback_call env node nodePath (cb, managers) =
        (Inr (), cb,
         managers(held \<mapsto> addLight env node (computeLocalToWorld env nodePath) lm))"
  using assms by (simp add: CollectLightCallback_call_def Let_def)

text \<open>
  C4, as the specification words it, fails. A light source below two nested
  managers, with the node path \<open>[1, 2, 3]\<close> from the root, is registered with the
  outer manager 1 and not with the manager 2 that is nearest to it.
\<close>

theorem outermost_manager_registers:
  "fst (CollectLightCallback_call line_env 3 [1, 2, 3]
     (CollectLightCallback_ctor, [1 \<mapsto> LightManager_ctor, 2 \<mapsto> LightManager_ctor])) = Inr () \<and>
   registered (CollectLightCallback_call line_env 3 [1, 2, 3]
     (CollectLightCallback_ctor, [1 \<mapsto> LightManager_ctor, 2 \<mapsto> LightManager_ctor])) 1 = Some [3] \<and>
   registered (CollectLightCallback_call line_env 3 [1, 2, 3]
     (CollectLightCallback_ctor, [1 \<mapsto> LightManager_ctor, 2 \<mapsto> LightManager_ctor])) 2 = Some []"
  by (simp add: CollectLightCallback_call_def CollectLightCallback_ctor_def registered_def
      findLightManager.simps addLight_def LightManager_ctor_def getLights_def Let_def)

text \<open>
  C4, amended. While the callback holds no manager it takes the first
  \<open>LightManager\<close> of the node path, counted from the root, and keeps it; once
  it holds a manager it does not look at the path again. In both cases it registers
  the light source with the manager it holds, with the world matrix of the current
  node path.
\<close>

theorem CollectLightCallback_registers:
  "(mLightManager cb = None \<and> i < length nodePath \<and> managers (nodePath ! i) = Some lm \<and>
    (\<forall>j<i. managers (nodePath ! j) = None) \<longrightarrow>
      CollectLightCallback_call env node nodePath (cb, managers) =
        (Inr (), cb\<lparr>mLightManager := Some (nodePath ! i)\<rparr>,
         managers(nodePath ! i \<mapsto> addLight env node (computeLocalToWorld env nodePath) lm))) \<and>
   (mLightManager cb = Some held \<and> managers held = Some lm \<longrightarrow>
      CollectLightCallback_call env node nodePath (cb, managers) =
        (Inr (), cb,
         managers(held \<mapsto> addLight env node (computeLocalToWorld env nodePath) lm)))"
  using CollectLightCallback_call_first [of cb i nodePath managers lm env node]
    CollectLightCallback_call_held [of cb held managers lm env node nodePath]
  by blast

theorem CollectLightCallback_registers_witness:
  "CollectLightCallback_call line_env 3 [0, 1, 2, 3]
     (CollectLightCallback_ctor, [1 \<mapsto> LightManager_ctor, 2 \<mapsto> LightManager_ctor]) =
     (Inr (), \<lparr>mLightManager = Some 1\<rparr>,
      [1 \<mapsto> LightManager_ctor, 2 \<mapsto> LightManager_ctor]
        (1 \<mapsto> addLight line_env 3 4 LightManager_ctor)) \<and>
   CollectLightCallback_call line_env 3 [2, 3]
     (\<lparr>mLightManager = Some 1\<rparr>, [1 \<mapsto> LightManager_ctor, 2 \<mapsto> LightManager_ctor]) =
     (Inr (), \<lparr>mLightManager = Some 1\<rparr>,
      [1 \<mapsto> LightManager_ctor, 2 \<mapsto> LightManager_ctor]
        (1 \<mapsto> addLight line_env 3 2 LightManager_ctor))"
  using CollectLightCallback_registers [of CollectLightCallback_ctor 1 "[0, 1, 2, 3]"
      "[1 \<mapsto> LightManager_ctor, 2 \<mapsto> LightManager_ctor]" LightManager_ctor line_env 3 1]
    CollectLightCallback_registers [of "\<lparr>mLightManager = Some 1\<rparr>" 1 "[2, 3]"
      "[1 \<mapsto> LightManager_ctor, 2 \<mapsto> LightManager_ctor]" LightManager_ctor line_env 3 1]
  by (simp add: CollectLightCallback_ctor_def line_env_def)

text \<open>
  C8, as the specification words it, fails. After a first call below the manager 1,
  a call with the node path \<open>[5, 3]\<close>, on which there is no manager, raises no
  error and registers the light source with the manager 1 again.
\<close>

theorem held_manager_no_error:
  "fst (CollectLightCallback_call line_env 3 [1, 3]
          (CollectLightCallback_ctor, [1 \<mapsto> LightManager_ctor])) = Inr () \<and>
   snd (snd (CollectLightCallback_call line_env 3 [1, 3]
          (CollectLightCallback_ctor, [1 \<mapsto> LightManager_ctor]))) 5 = None \<and>
   snd (snd (CollectLightCallback_call line_env 3 [1, 3]
          (CollectLightCallback_ctor, [1 \<mapsto> LightManager_ctor]))) 3 = None \<and>
   fst (CollectLightCallback_call line_env 3 [5, 3]
          (snd (CollectLightCallback_call line_env 3 [1, 3]
             (CollectLightCallback_ctor, [1 \<mapsto> LightManager_ctor])))) = Inr () \<and>
   registered (CollectLightCallback_call line_env 3 [5, 3]
          (snd (CollectLightCallback_call line_env 3 [1, 3]
             (CollectLightCallback_ctor, [1 \<mapsto> LightManager_ctor])))) 1 = Some [3, 3]"
  by (simp add: CollectLightCallback_call_def CollectLightCallback_ctor_def registered_def
      findLightManager.simps addLight_def LightManager_ctor_def getLights_def Let_def)

text \<open>
  C8, amended. A callback that holds no manager and finds no \<open>LightManager\<close> on
  the node path throws the runtime error and leaves itself and every manager as
  they were: the light source is not registered. A callback that holds no manager
  and has a \<open>LightManager\<close> on the path, and a callback that holds a live
  manager, raise no error.
\<close>

theorem CollectLightCallback_throws:
  "(mLightManager cb = None \<and> (\<forall>a\<in>set nodePath. managers a = None) \<longrightarrow>
      CollectLightCallback_call env node nodePath (cb, managers) =
        (Inl (runtime_error ''can't find parent LightManager''), cb, managers)) \<and>
   (mLightManager cb = None \<and> (\<exists>a\<in>set nodePath. managers a \<noteq> None) \<longrightarrow>
      fst (CollectLightCallback_call env node nodePath (cb, managers)) = Inr ()) \<and>
   (mLightManager cb = Some held \<and> managers held \<noteq> None \<longrightarrow>
      fst (CollectLightCallback_call env node nodePath (cb, managers)) = Inr ())"
proof -
  have a: "CollectLightCallback_call env node nodePath (cb, managers) =
        (Inl (runtime_error ''can't find parent LightManager''), cb, managers)"
    if "mLightManager cb = None" "\<forall>a\<in>set nodePath. managers a = None"
    using that findLightManager_none [OF that(2), of 0]
    by (simp add: CollectLightCallback_call_def Let_def)
  have b: "fst (CollectLightCallback_call env node nodePath (cb, managers)) = Inr ()"
    if none: "mLightManager cb = None" and ex: "\<exists>a\<in>set nodePath. managers a \<noteq> None"
  proof -
    define i where "i = (LEAST i. i < length nodePath \<and> managers (nodePath ! i) \<noteq> None)"
    from ex obtain k where "k < length nodePath \<and> managers (nodePath ! k) \<noteq> None"
      by (metis in_set_conv_nth)
    then have i: "i < length nodePath \<and> managers (nodePath ! i) \<noteq> None"
      unfolding i_def by (rule LeastI)
    have first: "\<forall>j<i. managers (nodePath ! j) = None"
    proof (intro allI impI)
      fix j assume "j < i"
      then have "\<not> (j < length nodePath \<and> managers (nodePath ! j) \<noteq> None)"
        unfolding i_def by (rule not_less_Least)
      with \<open>j < i\<close> i show "managers (nodePath ! j) = None" by simp
    qed
    from i obtain lm where "managers (nodePath ! i) = Some lm" by auto
    with CollectLightCallback_call_first [OF none _ _ first, of lm env node] i show ?thesis
      by simp
  qed
  have c: "fst (CollectLightCallback_call env node nodePath (cb, managers)) = Inr ()"
    if "mLightManager cb = Some held" "managers held \<noteq> None"
    using that by (auto simp: CollectLightCallback_call_def Let_def)
  from a b c show ?thesis by blast
qed

theorem CollectLightCallback_throws_witness:
  "CollectLightCallback_call line_env 3 [5, 3]
     (CollectLightCallback_ctor, [1 \<mapsto> LightManager_ctor]) =
     (Inl (runtime_error ''can't find parent LightManager''), CollectLightCallback_ctor,
      [1 \<mapsto> LightManager_ctor]) \<and>
   fst (CollectLightCallback_call line_env 3 [1, 3]
     (CollectLightCallback_ctor, [1 \<mapsto> LightManager_ctor])) = Inr () \<and>
   fst (CollectLightCallback_call line_env 3 [5, 3]
     (\<lparr>mLightManager = Some 1\<rparr>, [1 \<mapsto> LightManager_ctor])) = Inr ()"
  using CollectLightCallback_throws [of CollectLightCallback_ctor "[5, 3]"
      "[1 \<mapsto> LightManager_ctor]" line_env 3 1]
    CollectLightCallback_throws [of CollectLightCallback_ctor "[1, 3]"
      "[1 \<mapsto> LightManager_ctor]" line_env 3 1]
    CollectLightCallback_throws [of "\<lparr>mLightManager = Some 1\<rparr>" "[5, 3]"
      "[1 \<mapsto> LightManager_ctor]" line_env 3 1]
  by (simp add: CollectLightCallback_ctor_def)

subsection \<open>The decoration pass\<close>

lemma attach_Nil: "attach this [] cbs = cbs"
  by (simp add: attach_def)

lemma attach_append: "attach this (xs @ ys) cbs = attach this ys (attach this xs cbs)"
  by (simp add: attach_def fun_eq_iff replicate_add)

lemma firstParents_Cons: "firstParents (n # ns) = firstParents [n] @ firstParents ns"
  by (simp add: firstParents_def)

lemma wellFormed_child:
  "wellFormed (Node a c ps cs) \<Longrightarrow> n \<in> set cs \<Longrightarrow> wellFormed n"
  by (auto simp: wellFormed_def)

lemma wellFormed_no_children:
  "wellFormed (Node a c ps cs) \<Longrightarrow> c \<noteq> Group \<Longrightarrow> cs = []"
  by (auto simp: wellFormed_def)

lemma fold_accept:
  assumes "\<And>n cbs. n \<in> set ns \<Longrightarrow> accept this n cbs = attach this (firstParents [n]) cbs"
  shows "fold (accept this) ns cbs = attach this (firstParents ns) cbs"
  using assms
proof (induction ns arbitrary: cbs)
  case Nil
  then show ?case by (simp add: firstParents_def attach_Nil)
next
  case (Cons n ns)
  have "fold (accept this) (n # ns) cbs = fold (accept this) ns (accept this n cbs)"
    by simp
  also have "\<dots> = attach this (firstParents ns) (accept this n cbs)"
    by (rule Cons.IH) (simp add: Cons.prems)
  also have "\<dots> = attach this (firstParents ns) (attach this (firstParents [n]) cbs)"
    by (simp add: Cons.prems)
  also have "\<dots> = attach this (firstParents (n # ns)) cbs"
    by (simp add: firstParents_Cons [of n ns] attach_append)
  finally show ?case .
qed

lemma accept_attach:
  "wellFormed n \<Longrightarrow> accept this n cbs = attach this (firstParents [n]) cbs"
proof (induction n arbitrary: cbs)
  case (Node a c ps cs)
  show ?case
  proof (cases c)
    case Geode
    with Node.prems have cs: "cs = []" by (auto dest: wellFormed_no_children)
    show ?thesis
      by (auto simp: Geode cs apply_Geode_def addCullCallback_def attach_def firstParents_def
          fun_eq_iff Let_def)
  next
    case Group
    have "fold (accept this) cs cbs = attach this (firstParents cs) cbs"
      by (rule fold_accept) (auto intro: Node.IH wellFormed_child [OF Node.prems])
    moreover have "firstParents [Node a Group ps cs] = firstParents cs"
      by (simp add: firstParents_def)
    ultimately show ?thesis by (simp add: Group)
  next
    case Leaf
    with Node.prems have cs: "cs = []" by (auto dest: wellFormed_no_children)
    show ?thesis
      by (simp add: Leaf cs firstParents_def attach_Nil)
  qed
qed

lemma decorateGeodes_attach:
  "\<forall>n\<in>set (groupChildren lm). wellFormed n \<Longrightarrow>
   decorateGeodes this lm cbs = attach this (firstParents (groupChildren lm)) cbs"
  unfolding decorateGeodes_def by (rule fold_accept) (simp add: accept_attach)





text \<open>
  A copy of a decorated manager is decorated from the start; its \<open>update\<close>
  attaches nothing.
\<close>

lemma update_of_copy:
  "mDecorated lm \<Longrightarrow> fst (update this (cbs, LightManager_copy this lm)) = cbs"
  by (simp add: update_def LightManager_copy_def Let_def)








end
